theory Spec2Isabelle
  imports Main
begin

section \<open>The cache entity of \<^verbatim>\<open>src/src/cache.ts\<close> as a state machine\<close>

text \<open>
  The class \<^verbatim>\<open>Cache<T>\<close> is event driven: JavaScript runs one handler at a time, so a
  "concurrent" use of a cache is an interleaving of calls of its methods with the
  callbacks of its collaborators (the storage's promises, the producer observable). The
  model is a record of the fields of the class, one function per method and per callback,
  and a \<open>step\<close> function over the events; each function runs one handler to its end.

  What the collaborators do is not in the repository, so it arrives as events:
  \<^item> the storage resolves or rejects \<^verbatim>\<open>ready()\<close>, \<^verbatim>\<open>get(name)\<close> and \<^verbatim>\<open>set(name, data)\<close>;
  \<^item> the producer (the observable bound to the cache) emits, fails or completes in a later
    turn than the one that subscribed to it.
  A turn is the synchronous code of one task; the callbacks of resolved promises
  (microtasks) run when it ends. The calls of the application are events of their own, so
  that several of them can share a turn; the event \<open>Microtasks\<close> ends the turn.

  Besides the fields of the class the record keeps logs of what left the cache: the
  emissions of the error subject, the producers that were subscribed, and what each
  observer received. They are written and never read by the methods. An observer is such
  a log: what the application does with a notification is another event.

  The model follows \<^verbatim>\<open>src/src/cache.ts\<close>; \<^verbatim>\<open>src/unnamed/part_001\<close> is an earlier revision of
  the same class, without the error subject. The experimental method \<^verbatim>\<open>data$\<close>
  (cache.ts:237-248) is left out.
\<close>

subsection \<open>Values\<close>

text \<open>
  A \<^verbatim>\<open>T\<close> as the code tests it: \<^verbatim>\<open>typeof data !== 'undefined'\<close> and \<^verbatim>\<open>data !== null\<close>
  (cache.ts:121).
\<close>

datatype 'a jsval = Undefined | Null | Val 'a

text \<open>
  An observer of one of the cache's observables: \<open>App\<close> is an observer of the application
  that has an error callback, \<open>Bare\<close> one that has none (\<^verbatim>\<open>refresh().subscribe()\<close> and
  \<^verbatim>\<open>subscribe((value) => ...)\<close> in the README), and \<open>Internal\<close> is the observer of
  \<^verbatim>\<open>this.refresh().subscribe()\<close> at cache.ts:108, which has no callback at all.
\<close>

datatype observer = App nat | Bare nat | Internal

fun has_error_callback :: "observer \<Rightarrow> bool" where
  "has_error_callback (App n) = True"
| "has_error_callback (Bare n) = False"
| "has_error_callback Internal = False"

datatype ('a, 'e) notification = Next "'a jsval" | Error 'e | Complete

text \<open>
  What \<^verbatim>\<open>this.error.next(...)\<close> carries: the message built at cache.ts:133 or cache.ts:139,
  or the error of the producer (cache.ts:189).
\<close>

datatype 'e failure = Message string | Thrown 'e

text \<open>A producer (an \<^verbatim>\<open>Observable<T>\<close> given to the cache) is known by its identity.\<close>

type_synonym producer = nat

text \<open>
  The \<^verbatim>\<open>then\<close> callbacks registered on \<^verbatim>\<open>readyPromise\<close>: by \<^verbatim>\<open>get()\<close> (cache.ts:167), by a
  subscription to \<^verbatim>\<open>get$\<close> (cache.ts:105), by \<^verbatim>\<open>isEmpty()\<close> (cache.ts:227) and by \<^verbatim>\<open>set(data)\<close>
  (cache.ts:208).
\<close>

datatype 'a continuation =
  GetK observer | StreamK observer | IsEmptyK observer | PersistK "'a jsval"

text \<open>
  \<^verbatim>\<open>BehaviorSubject<T>\<close>: the current value and the subscribed observers.
\<close>

datatype 'a BehaviorSubject =
  BehaviorSubject (getValue: "'a jsval") (observers: "observer list")

text \<open>
  The observable built in \<^verbatim>\<open>refresh()\<close> (cache.ts:185-190): the producer it was built from
  and the observers that \<^verbatim>\<open>share()\<close> has attached. \<^verbatim>\<open>share()\<close> subscribes to its source when
  the first observer arrives, so the producer is running when \<open>attached\<close> is not empty.
  Observers stay attached until the producer completes or fails (none unsubscribes), and
  they subscribe to the observable while it is in the slot.
\<close>

datatype refresh_handle = Refresh (source: producer) (attached: "observer list")

text \<open>The constructor's chain of storage promises (cache.ts:120).\<close>

datatype probe = NoProbe | AwaitStorageReady | AwaitStorageGet | ProbeSettled

subsection \<open>The fields\<close>

record ('a, 'e) Cache =
  name :: string
  observable :: producer
  useLocalStorage :: bool
  loaded :: bool
  empty :: "bool option"
  allowNull :: bool
  data :: "'a BehaviorSubject"
  refreshObservable :: "refresh_handle option"
  readyResolved :: bool
  ready_callbacks :: "'a continuation list"
  stream_scalar :: bool
  probe_state :: probe
  storage_writes :: "'a jsval list"
  error_log :: "'e failure list"
  uncaught :: "'e list"
  invocations :: "producer list"
  settled :: nat
  deliveries :: "(observer \<times> ('a, 'e) notification) list"
  stream_log :: "(observer \<times> 'a jsval) list"
  answers :: "(observer \<times> bool option) list"

text \<open>
  \<^item> \<open>empty\<close> is declared without an initialiser (cache.ts:36): it is \<^verbatim>\<open>undefined\<close>, here
    \<open>None\<close>, until the constructor's load assigns it; \<^verbatim>\<open>if (this.empty)\<close> takes \<open>None\<close>
    for false.
  \<^item> \<open>refreshObservable\<close> is \<open>None\<close> for \<^verbatim>\<open>undefined\<close> and for \<^verbatim>\<open>null\<close>: the code tests it with
    \<^verbatim>\<open>== null\<close> only (cache.ts:183).
  \<^item> \<open>readyResolved\<close> and \<open>ready_callbacks\<close> are the state of \<^verbatim>\<open>readyPromise\<close>: whether it is
    resolved, and the \<^verbatim>\<open>then\<close> callbacks that have not run yet. While the promise is pending
    they wait for it; once it is resolved they are jobs of the microtask queue.
  \<^item> \<open>stream_scalar\<close> is the state of the observable \<^verbatim>\<open>Observable.fromPromise(this.ready())\<close>
    inside \<^verbatim>\<open>get$\<close> (cache.ts:105), which is built once: in RxJS 5 it keeps the promise's
    value from the first time its promise callback runs, and emits it at once to the
    observers that subscribe later. \<^verbatim>\<open>get()\<close> builds a new one at every call.
  \<^item> \<open>probe_state\<close> and \<open>storage_writes\<close> are the storage calls that have not settled.
  \<^item> \<open>uncaught\<close> lists the errors rethrown by an observer that has no error callback.
  \<^item> \<open>error_log\<close> lists the emissions of \<^verbatim>\<open>this.error\<close>; \<open>invocations\<close> the producers
    subscribed so far and \<open>settled\<close> how many of them have completed or failed;
    \<open>deliveries\<close>, \<open>stream_log\<close> and \<open>answers\<close> what the observers of \<^verbatim>\<open>get()\<close> and
    \<^verbatim>\<open>refresh()\<close>, of \<^verbatim>\<open>get$\<close> and of \<^verbatim>\<open>isEmpty()\<close> received.
\<close>

definition Cache_init :: "string \<Rightarrow> producer \<Rightarrow> ('a, 'e) Cache" where
  "Cache_init n obs =
     \<lparr> name = n, observable = obs, useLocalStorage = True, loaded = False,
       empty = None, allowNull = False, data = BehaviorSubject Null [],
       refreshObservable = None, readyResolved = False, ready_callbacks = [],
       stream_scalar = False, probe_state = NoProbe, storage_writes = [], error_log = [],
       uncaught = [], invocations = [],
       settled = 0, deliveries = [], stream_log = [], answers = [] \<rparr>"

subsection \<open>refresh (cache.ts:182-194)\<close>

text \<open>
  \<^verbatim>\<open>refresh()\<close> fills the slot when it is empty and returns the slot: its result is
  \<open>refreshObservable (refresh s)\<close>. It subscribes to nothing.
\<close>

definition refresh :: "('a, 'e) Cache \<Rightarrow> ('a, 'e) Cache" where
  "refresh s =
     (if refreshObservable s = None
      then s\<lparr>refreshObservable := Some (Refresh (observable s) [])\<rparr>
      else s)"

text \<open>
  Subscribing an observer to the observable in the slot. The first observer makes
  \<^verbatim>\<open>share()\<close> subscribe to the producer the handle was built from.
\<close>

definition subscribe_refresh :: "observer \<Rightarrow> ('a, 'e) Cache \<Rightarrow> ('a, 'e) Cache" where
  "subscribe_refresh c s =
     (case refreshObservable s of
        None \<Rightarrow> s
      | Some h \<Rightarrow>
          (if attached h = [] then s\<lparr>invocations := invocations s @ [source h]\<rparr> else s)
            \<lparr>refreshObservable := Some (Refresh (source h) (attached h @ [c]))\<rparr>)"

text \<open>
  Every caller in the repository subscribes in the turn in which it calls \<^verbatim>\<open>refresh()\<close>
  (cache.ts:108, cache.ts:170 through \<^verbatim>\<open>mergeMap\<close>), and so do the callers of the README.
\<close>

definition refresh_subscribe :: "observer \<Rightarrow> ('a, 'e) Cache \<Rightarrow> ('a, 'e) Cache" where
  "refresh_subscribe c s = subscribe_refresh c (refresh s)"

subsection \<open>The value stream get$ (cache.ts:105-116)\<close>

text \<open>
  \<^verbatim>\<open>this.data !== null\<close> at cache.ts:115 compares the subject itself, which is assigned once
  (cache.ts:64) and is an object: the comparison is true whatever the subject holds.
\<close>

definition data_not_null :: "'a BehaviorSubject \<Rightarrow> bool" where
  "data_not_null d = True"

text \<open>
  The filter of \<^verbatim>\<open>get$\<close> run for observer \<open>c\<close> on the element \<open>v\<close>, and the delivery of \<open>v\<close> when
  the filter lets it through.
\<close>

definition get_filter :: "observer \<Rightarrow> 'a jsval \<Rightarrow> ('a, 'e) Cache \<Rightarrow> ('a, 'e) Cache" where
  "get_filter c v s =
     (if empty s = Some True then refresh_subscribe Internal s
      else if allowNull s \<or> data_not_null (data s)
        then s\<lparr>stream_log := stream_log s @ [(c, v)]\<rparr>
        else s)"

text \<open>\<^verbatim>\<open>this.data.next(v)\<close>: the subject keeps \<open>v\<close> and hands it to its observers in turn.\<close>

definition data_next :: "'a jsval \<Rightarrow> ('a, 'e) Cache \<Rightarrow> ('a, 'e) Cache" where
  "data_next v s =
     fold (\<lambda>c. get_filter c v) (observers (data s))
       (s\<lparr>data := BehaviorSubject v (observers (data s))\<rparr>)"

subsection \<open>The readiness gate (cache.ts:92, 157-159)\<close>

definition run_continuation :: "'a continuation \<Rightarrow> ('a, 'e) Cache \<Rightarrow> ('a, 'e) Cache" where
  "run_continuation k s =
     (case k of
        GetK c \<Rightarrow>
          (if empty s = Some True then refresh_subscribe c s
           else s\<lparr>deliveries := deliveries s @ [(c, Next (getValue (data s))), (c, Complete)]\<rparr>)
      | StreamK c \<Rightarrow>
          get_filter c (getValue (data s))
            (s\<lparr>stream_scalar := True,
               data := BehaviorSubject (getValue (data s)) (observers (data s) @ [c])\<rparr>)
      | IsEmptyK c \<Rightarrow> s\<lparr>answers := answers s @ [(c, empty s)]\<rparr>
      | PersistK v \<Rightarrow> s\<lparr>storage_writes := storage_writes s @ [v]\<rparr>)"

text \<open>
  \<^item> \<open>GetK\<close> is the function given to \<^verbatim>\<open>mergeMap\<close> in \<^verbatim>\<open>get()\<close> (cache.ts:167-174);
    \<^verbatim>\<open>Observable.of(x)\<close> emits \<open>x\<close> and completes.
  \<^item> \<open>StreamK\<close> is the function given to \<^verbatim>\<open>mergeMap\<close> in \<^verbatim>\<open>get$\<close>: it subscribes the observer to
    \<^verbatim>\<open>this.data\<close>, which replays its value through the filter.
  \<^item> \<open>IsEmptyK\<close> resolves \<^verbatim>\<open>isEmpty()\<close> with the flag (cache.ts:227).
  \<^item> \<open>PersistK\<close> calls \<^verbatim>\<open>storage.set(name, data)\<close> (cache.ts:208).

  \<^verbatim>\<open>this.ready().then(callback)\<close> only registers the callback, whether the promise is
  resolved or not: the callback never runs in the synchronous code that registers it.
\<close>

definition then_ready :: "'a continuation \<Rightarrow> ('a, 'e) Cache \<Rightarrow> ('a, 'e) Cache" where
  "then_ready k s = s\<lparr>ready_callbacks := ready_callbacks s @ [k]\<rparr>"

text \<open>
  The end of a turn: when the promise is resolved the registered callbacks run, in the
  order of their registration; none of them registers another.
\<close>

definition run_microtasks :: "('a, 'e) Cache \<Rightarrow> ('a, 'e) Cache" where
  "run_microtasks s =
     (if readyResolved s
      then fold run_continuation (ready_callbacks s) (s\<lparr>ready_callbacks := []\<rparr>)
      else s)"

text \<open>
  \<^verbatim>\<open>readyResolve()\<close> is the last statement of the handlers that call it (cache.ts:131,
  cache.ts:148), so the callbacks that wait run next, in the order of their registration.
\<close>

definition readyResolve :: "('a, 'e) Cache \<Rightarrow> ('a, 'e) Cache" where
  "readyResolve s =
     (if readyResolved s then s
      else fold run_continuation (ready_callbacks s)
             (s\<lparr>readyResolved := True, ready_callbacks := []\<rparr>))"

subsection \<open>The methods\<close>

text \<open>\<^verbatim>\<open>get()\<close> and its subscription (cache.ts:166-175).\<close>

definition get :: "observer \<Rightarrow> ('a, 'e) Cache \<Rightarrow> ('a, 'e) Cache" where
  "get c s = then_ready (GetK c) s"

text \<open>
  A subscription to \<^verbatim>\<open>get$\<close> (cache.ts:105): through the promise the first times, at once
  when the observable has kept the promise's value.
\<close>

definition get_stream :: "observer \<Rightarrow> ('a, 'e) Cache \<Rightarrow> ('a, 'e) Cache" where
  "get_stream c s =
     (if stream_scalar s then run_continuation (StreamK c) s else then_ready (StreamK c) s)"

text \<open>\<^verbatim>\<open>isEmpty()\<close> (cache.ts:226-228).\<close>

definition isEmpty :: "observer \<Rightarrow> ('a, 'e) Cache \<Rightarrow> ('a, 'e) Cache" where
  "isEmpty c s = then_ready (IsEmptyK c) s"

text \<open>\<^verbatim>\<open>set(data)\<close> (cache.ts:201-210).\<close>

definition set_cache :: "'a jsval \<Rightarrow> ('a, 'e) Cache \<Rightarrow> ('a, 'e) Cache" where
  "set_cache v s =
     (let s1 = s\<lparr>empty := Some False\<rparr>;
          s2 = data_next v s1
      in if useLocalStorage s2 then then_ready (PersistK v) s2 else s2)"

text \<open>\<^verbatim>\<open>setObservable(observable)\<close> (cache.ts:217-219).\<close>

definition setObservable :: "producer \<Rightarrow> ('a, 'e) Cache \<Rightarrow> ('a, 'e) Cache" where
  "setObservable obs s = s\<lparr>observable := obs\<rparr>"

subsection \<open>The constructor and the storage's answers (cache.ts:101-150)\<close>

definition dquote :: char where
  "dquote = CHR 0x22"

definition retrieve_message :: "string \<Rightarrow> string" where
  "retrieve_message n =
     ''Cache failed to retrieve '' @ [dquote] @ n @ [dquote] @ '' from local storage.''"

definition access_message :: string where
  "access_message = ''Cache failed to access local storage.''"

text \<open>The body of the constructor, after the field initialisers.\<close>

definition constructor :: "('a, 'e) Cache \<Rightarrow> ('a, 'e) Cache" where
  "constructor s =
     (if useLocalStorage s then s\<lparr>probe_state := AwaitStorageReady\<rparr>
      else readyResolve (s\<lparr>empty := Some True\<rparr>))"

text \<open>
  \<^verbatim>\<open>new Cache(name, observable, storage)\<close>. The initialiser of \<^verbatim>\<open>useLocalStorage\<close> has
  run when the body tests it.
\<close>

definition Cache_new :: "string \<Rightarrow> producer \<Rightarrow> ('a, 'e) Cache" where
  "Cache_new n obs = constructor (Cache_init n obs)"

text \<open>\<^verbatim>\<open>storage.ready()\<close> resolved: the first callback of cache.ts:120 calls \<^verbatim>\<open>storage.get\<close>.\<close>

definition storage_ready_resolved :: "('a, 'e) Cache \<Rightarrow> ('a, 'e) Cache" where
  "storage_ready_resolved s =
     (if probe_state s = AwaitStorageReady then s\<lparr>probe_state := AwaitStorageGet\<rparr> else s)"

text \<open>\<^verbatim>\<open>storage.ready()\<close> rejected (cache.ts:138-144).\<close>

definition storage_ready_rejected :: "('a, 'e) Cache \<Rightarrow> ('a, 'e) Cache" where
  "storage_ready_rejected s =
     (if probe_state s = AwaitStorageReady
      then s\<lparr>error_log := error_log s @ [Message access_message],
             probe_state := ProbeSettled\<rparr>
      else s)"

text \<open>\<^verbatim>\<open>storage.get(name)\<close> resolved with \<open>d\<close> (cache.ts:120-131).\<close>

definition storage_get_resolved :: "'a jsval \<Rightarrow> ('a, 'e) Cache \<Rightarrow> ('a, 'e) Cache" where
  "storage_get_resolved d s =
     (if probe_state s = AwaitStorageGet
      then
        (let s0 = s\<lparr>probe_state := ProbeSettled\<rparr>;
             s1 = (if d \<noteq> Undefined \<and> (allowNull s0 \<or> d \<noteq> Null)
                   then (data_next d s0)\<lparr>empty := Some False\<rparr>
                   else s0\<lparr>empty := Some True\<rparr>)
         in readyResolve (s1\<lparr>loaded := True\<rparr>))
      else s)"

text \<open>\<^verbatim>\<open>storage.get(name)\<close> rejected (cache.ts:132-138).\<close>

definition storage_get_rejected :: "('a, 'e) Cache \<Rightarrow> ('a, 'e) Cache" where
  "storage_get_rejected s =
     (if probe_state s = AwaitStorageGet
      then s\<lparr>error_log := error_log s @ [Message (retrieve_message (name s))],
             probe_state := ProbeSettled\<rparr>
      else s)"

text \<open>
  \<^verbatim>\<open>storage.set(name, data)\<close> settled (cache.ts:208): resolved, \<^verbatim>\<open>loaded\<close> is set; rejected, the
  promise chain has no rejection callback.
\<close>

definition persist_resolved :: "('a, 'e) Cache \<Rightarrow> ('a, 'e) Cache" where
  "persist_resolved s =
     (case storage_writes s of
        [] \<Rightarrow> s
      | w # ws \<Rightarrow> s\<lparr>storage_writes := ws, loaded := True\<rparr>)"

definition persist_rejected :: "('a, 'e) Cache \<Rightarrow> ('a, 'e) Cache" where
  "persist_rejected s =
     (case storage_writes s of
        [] \<Rightarrow> s
      | w # ws \<Rightarrow> s\<lparr>storage_writes := ws\<rparr>)"

subsection \<open>The producer's notifications (cache.ts:185-190)\<close>

text \<open>
  The running producer reaches the observers through \<^verbatim>\<open>finally\<close>, \<^verbatim>\<open>do\<close> and \<^verbatim>\<open>share\<close>: a value
  goes through \<^verbatim>\<open>set\<close> and then to the attached observers; an error goes to the error
  subject and then to the observers; on an error and on completion the callback of
  \<^verbatim>\<open>finally\<close> empties the slot. The observers are logs, so the order of the deliveries and
  of the emptying of the slot within one notification is not visible in the model.

  The subject of \<^verbatim>\<open>share()\<close> hands an error to its observers in the order in which they were
  attached. An observer with no error callback rethrows the error (RxJS 5), out of the
  subject's loop: the observers attached after it receive nothing. By then the error
  subject has emitted and the slot is empty.
\<close>

fun deliver_error :: "observer list \<Rightarrow> 'e \<Rightarrow> ('a, 'e) Cache \<Rightarrow> ('a, 'e) Cache" where
  "deliver_error [] e s = s"
| "deliver_error (c # cs) e s =
     (if has_error_callback c
      then deliver_error cs e (s\<lparr>deliveries := deliveries s @ [(c, Error e)]\<rparr>)
      else s\<lparr>uncaught := uncaught s @ [e]\<rparr>)"

definition deliver_all ::
  "observer list \<Rightarrow> ('a, 'e) notification \<Rightarrow> ('a, 'e) Cache \<Rightarrow> ('a, 'e) Cache" where
  "deliver_all cs n s = s\<lparr>deliveries := deliveries s @ map (\<lambda>c. (c, n)) cs\<rparr>"

definition in_flight :: "('a, 'e) Cache \<Rightarrow> bool" where
  "in_flight s =
     (case refreshObservable s of None \<Rightarrow> False | Some h \<Rightarrow> attached h \<noteq> [])"

definition producer_next :: "'a jsval \<Rightarrow> ('a, 'e) Cache \<Rightarrow> ('a, 'e) Cache" where
  "producer_next v s =
     (case refreshObservable s of
        None \<Rightarrow> s
      | Some h \<Rightarrow>
          (if attached h = [] then s
           else deliver_all (attached h) (Next v) (set_cache v s)))"

definition producer_error :: "'e \<Rightarrow> ('a, 'e) Cache \<Rightarrow> ('a, 'e) Cache" where
  "producer_error e s =
     (case refreshObservable s of
        None \<Rightarrow> s
      | Some h \<Rightarrow>
          (if attached h = [] then s
           else deliver_error (attached h) e
                  (s\<lparr>error_log := error_log s @ [Thrown e],
                     refreshObservable := None, settled := Suc (settled s)\<rparr>)))"

definition producer_complete :: "('a, 'e) Cache \<Rightarrow> ('a, 'e) Cache" where
  "producer_complete s =
     (case refreshObservable s of
        None \<Rightarrow> s
      | Some h \<Rightarrow>
          (if attached h = [] then s
           else (deliver_all (attached h) Complete s)
                  \<lparr>refreshObservable := None, settled := Suc (settled s)\<rparr>))"

subsection \<open>Events and runs\<close>

datatype ('a, 'e) event =
    CallGet observer
  | CallRefresh observer
  | SubscribeStream observer
  | CallIsEmpty observer
  | CallSet "'a jsval"
  | CallSetObservable producer
  | AssignAllowNull bool
  | AssignUseLocalStorage bool
  | Microtasks
  | StorageReady
  | StorageReadyRejected
  | StorageGetResolved "'a jsval"
  | StorageGetRejected
  | PersistResolved
  | PersistRejected
  | ProducerNext "'a jsval"
  | ProducerError 'e
  | ProducerComplete

text \<open>
  A callback of a collaborator is a turn of its own: the microtasks of the turn before
  have run when it starts, and those it leaves run when it ends.
\<close>

definition task :: "(('a, 'e) Cache \<Rightarrow> ('a, 'e) Cache) \<Rightarrow> ('a, 'e) Cache \<Rightarrow> ('a, 'e) Cache" where
  "task handler s = run_microtasks (handler (run_microtasks s))"

fun step :: "('a, 'e) event \<Rightarrow> ('a, 'e) Cache \<Rightarrow> ('a, 'e) Cache" where
  "step (CallGet c) s = get c s"
| "step (CallRefresh c) s = refresh_subscribe c s"
| "step (SubscribeStream c) s = get_stream c s"
| "step (CallIsEmpty c) s = isEmpty c s"
| "step (CallSet v) s = set_cache v s"
| "step (CallSetObservable p) s = setObservable p s"
| "step (AssignAllowNull b) s = s\<lparr>allowNull := b\<rparr>"
| "step (AssignUseLocalStorage b) s = s\<lparr>useLocalStorage := b\<rparr>"
| "step Microtasks s = run_microtasks s"
| "step StorageReady s = task storage_ready_resolved s"
| "step StorageReadyRejected s = task storage_ready_rejected s"
| "step (StorageGetResolved d) s = task (storage_get_resolved d) s"
| "step StorageGetRejected s = task storage_get_rejected s"
| "step PersistResolved s = task persist_resolved s"
| "step PersistRejected s = task persist_rejected s"
| "step (ProducerNext v) s = task (producer_next v) s"
| "step (ProducerError e) s = task (producer_error e) s"
| "step ProducerComplete s = task producer_complete s"

definition run :: "('a, 'e) event list \<Rightarrow> ('a, 'e) Cache \<Rightarrow> ('a, 'e) Cache" where
  "run evs s = fold step evs s"


section \<open>The registry of \<^verbatim>\<open>src/unnamed/part_000\<close> (class CacheService)\<close>








section \<open>Predicates of the statements\<close>

text \<open>
  The bookkeeping of the producer subscriptions agrees with the slot: one subscription is
  neither completed nor failed exactly when the slot holds an observable with observers.
\<close>

definition slot_agrees :: "('a, 'e) Cache \<Rightarrow> bool" where
  "slot_agrees s = (length (invocations s) = settled s + (if in_flight s then 1 else 0))"



section \<open>Closed forms of the methods\<close>

lemma get_filter_not_empty:
  "empty s \<noteq> Some True \<Longrightarrow> get_filter c v s = s\<lparr>stream_log := stream_log s @ [(c, v)]\<rparr>"
  by (simp add: get_filter_def data_not_null_def)

lemma fold_get_filter_not_empty:
  "empty s \<noteq> Some True \<Longrightarrow>
   fold (\<lambda>c. get_filter c v) cs s = s\<lparr>stream_log := stream_log s @ map (\<lambda>c. (c, v)) cs\<rparr>"
proof (induction cs arbitrary: s)
  case Nil
  then show ?case by simp
next
  case (Cons c cs)
  have "fold (\<lambda>c. get_filter c v) (c # cs) s
          = fold (\<lambda>c. get_filter c v) cs (s\<lparr>stream_log := stream_log s @ [(c, v)]\<rparr>)"
    using Cons.prems by (simp add: get_filter_not_empty)
  also have "\<dots> = s\<lparr>stream_log := stream_log s @ map (\<lambda>c. (c, v)) (c # cs)\<rparr>"
    using Cons.prems by (subst Cons.IH) simp_all
  finally show ?case .
qed

lemma data_next_not_empty:
  "empty s \<noteq> Some True \<Longrightarrow>
   data_next v s =
     s\<lparr>data := BehaviorSubject v (observers (data s)),
       stream_log := stream_log s @ map (\<lambda>c. (c, v)) (observers (data s))\<rparr>"
  by (simp add: data_next_def fold_get_filter_not_empty)

lemma set_cache_eq:
  "set_cache v s =
     s\<lparr>empty := Some False,
       data := BehaviorSubject v (observers (data s)),
       stream_log := stream_log s @ map (\<lambda>c. (c, v)) (observers (data s)),
       ready_callbacks :=
         (if useLocalStorage s then ready_callbacks s @ [PersistK v] else ready_callbacks s)\<rparr>"
  by (simp add: set_cache_def Let_def data_next_not_empty then_ready_def)

lemma set_cache_frame:
  "deliveries (set_cache v t) = deliveries t"
  "invocations (set_cache v t) = invocations t"
  "refreshObservable (set_cache v t) = refreshObservable t"
  "settled (set_cache v t) = settled t"
  "error_log (set_cache v t) = error_log t"
  "readyResolved (set_cache v t) = readyResolved t"
  "probe_state (set_cache v t) = probe_state t"
  "answers (set_cache v t) = answers t"
  "observers (data (set_cache v t)) = observers (data t)"
  "stream_log (set_cache v t) = stream_log t @ map (\<lambda>x. (x, v)) (observers (data t))"
  by (simp_all add: set_cache_eq)

lemma refresh_subscribe_eq:
  "refresh_subscribe c s =
     (case refreshObservable s of
        None \<Rightarrow> s\<lparr>invocations := invocations s @ [observable s],
                  refreshObservable := Some (Refresh (observable s) [c])\<rparr>
      | Some h \<Rightarrow>
          (if attached h = [] then s\<lparr>invocations := invocations s @ [source h]\<rparr> else s)
            \<lparr>refreshObservable := Some (Refresh (source h) (attached h @ [c]))\<rparr>)"
  by (simp add: refresh_subscribe_def refresh_def subscribe_refresh_def split: option.splits)

lemma deliver_error_eq:
  "deliver_error cs e s =
     s\<lparr>deliveries := deliveries s @ map (\<lambda>c. (c, Error e)) (takeWhile has_error_callback cs),
       uncaught := (if list_all has_error_callback cs then uncaught s else uncaught s @ [e])\<rparr>"
  by (induction cs arbitrary: s) simp_all

lemma producer_error_eq:
  assumes "refreshObservable s = Some h" and "attached h \<noteq> []"
  shows "producer_error e s =
     s\<lparr>error_log := error_log s @ [Thrown e], refreshObservable := None,
       settled := Suc (settled s),
       deliveries := deliveries s
         @ map (\<lambda>c. (c, Error e)) (takeWhile has_error_callback (attached h)),
       uncaught := (if list_all has_error_callback (attached h) then uncaught s
                    else uncaught s @ [e])\<rparr>"
  using assms by (simp add: producer_error_def deliver_error_eq)

subsection \<open>What the callbacks of the gate leave alone\<close>

lemma refresh_subscribe_frame:
  "empty (refresh_subscribe c s) = empty s"
  "readyResolved (refresh_subscribe c s) = readyResolved s"
  "probe_state (refresh_subscribe c s) = probe_state s"
  "data (refresh_subscribe c s) = data s"
  "allowNull (refresh_subscribe c s) = allowNull s"
  "answers (refresh_subscribe c s) = answers s"
  "deliveries (refresh_subscribe c s) = deliveries s"
  "stream_log (refresh_subscribe c s) = stream_log s"
  "error_log (refresh_subscribe c s) = error_log s"
  "ready_callbacks (refresh_subscribe c s) = ready_callbacks s"
  "observable (refresh_subscribe c s) = observable s"
  by (simp_all add: refresh_subscribe_eq split: option.splits)

lemma get_filter_frame:
  "empty (get_filter c v s) = empty s"
  "readyResolved (get_filter c v s) = readyResolved s"
  "probe_state (get_filter c v s) = probe_state s"
  "data (get_filter c v s) = data s"
  "allowNull (get_filter c v s) = allowNull s"
  "answers (get_filter c v s) = answers s"
  "deliveries (get_filter c v s) = deliveries s"
  "error_log (get_filter c v s) = error_log s"
  "ready_callbacks (get_filter c v s) = ready_callbacks s"
  "observable (get_filter c v s) = observable s"
  by (simp_all add: get_filter_def refresh_subscribe_frame)

lemma run_continuation_frame:
  "empty (run_continuation k s) = empty s"
  "readyResolved (run_continuation k s) = readyResolved s"
  "probe_state (run_continuation k s) = probe_state s"
  "getValue (data (run_continuation k s)) = getValue (data s)"
  "allowNull (run_continuation k s) = allowNull s"
  "error_log (run_continuation k s) = error_log s"
  "ready_callbacks (run_continuation k s) = ready_callbacks s"
  "observable (run_continuation k s) = observable s"
  by (cases k; simp add: run_continuation_def refresh_subscribe_frame get_filter_frame)+

lemma fold_run_continuation_frame:
  "empty (fold run_continuation ks s) = empty s
   \<and> readyResolved (fold run_continuation ks s) = readyResolved s
   \<and> probe_state (fold run_continuation ks s) = probe_state s
   \<and> getValue (data (fold run_continuation ks s)) = getValue (data s)
   \<and> allowNull (fold run_continuation ks s) = allowNull s
   \<and> error_log (fold run_continuation ks s) = error_log s
   \<and> ready_callbacks (fold run_continuation ks s) = ready_callbacks s
   \<and> observable (fold run_continuation ks s) = observable s"
  by (induction ks arbitrary: s) (simp_all add: run_continuation_frame)

lemma readyResolve_frame:
  "empty (readyResolve s) = empty s"
  "readyResolved (readyResolve s)"
  "probe_state (readyResolve s) = probe_state s"
  "getValue (data (readyResolve s)) = getValue (data s)"
  "allowNull (readyResolve s) = allowNull s"
  "error_log (readyResolve s) = error_log s"
  "ready_callbacks (readyResolve s) = (if readyResolved s then ready_callbacks s else [])"
  "observable (readyResolve s) = observable s"
  by (simp_all add: readyResolve_def fold_run_continuation_frame)

lemma run_microtasks_frame:
  "empty (run_microtasks s) = empty s"
  "readyResolved (run_microtasks s) = readyResolved s"
  "probe_state (run_microtasks s) = probe_state s"
  "getValue (data (run_microtasks s)) = getValue (data s)"
  "allowNull (run_microtasks s) = allowNull s"
  "error_log (run_microtasks s) = error_log s"
  "ready_callbacks (run_microtasks s) = (if readyResolved s then [] else ready_callbacks s)"
  "observable (run_microtasks s) = observable s"
  by (simp_all add: run_microtasks_def fold_run_continuation_frame)

lemma run_microtasks_closed:
  "\<not> readyResolved s \<Longrightarrow> run_microtasks s = s"
  by (simp add: run_microtasks_def)

lemma run_microtasks_idle:
  "ready_callbacks s = [] \<Longrightarrow> run_microtasks s = s"
  by (cases "readyResolved s") (simp_all add: run_microtasks_def)

lemma task_closed:
  assumes "\<not> readyResolved s" and "\<not> readyResolved (handler s)"
  shows "task handler s = handler s"
  using assms by (simp add: task_def run_microtasks_closed)

section \<open>set and the write to the storage\<close>

text \<open>
  Claim C5. \<^verbatim>\<open>set(v)\<close> records \<open>v\<close> in the same step, for every \<open>v\<close> and every state: when it
  returns the empty flag is false, the subject holds \<open>v\<close> and has handed \<open>v\<close> to each of
  its observers. A write to the storage that fails afterwards changes neither the flag
  nor the subject (in the state \<^verbatim>\<open>set\<close> returned, and in any state \<open>t\<close>).
\<close>

theorem set_records_in_memory:
  "empty (set_cache v s) = Some False
   \<and> getValue (data (set_cache v s)) = v
   \<and> stream_log (set_cache v s) = stream_log s @ map (\<lambda>c. (c, v)) (observers (data s))
   \<and> empty (persist_rejected (set_cache v s)) = Some False
   \<and> getValue (data (persist_rejected (set_cache v s))) = v
   \<and> stream_log (persist_rejected (set_cache v s)) = stream_log (set_cache v s)
   \<and> empty (persist_rejected t) = empty t
   \<and> data (persist_rejected t) = data t"
  by (simp add: set_cache_eq persist_rejected_def split: list.splits)

text \<open>
  Claim C6, as the spec states it, fails: a ready cache writes the value of \<^verbatim>\<open>set\<close> to the
  storage when the turn of the call ends, the write is rejected, and the error subject
  has emitted nothing.
\<close>

theorem persist_failure_unreported_counterexample:
  "storage_writes (run [StorageReady, StorageGetResolved Undefined, CallSet (Val 1), Microtasks]
       (Cache_new ''k'' 0 :: (nat, string) Cache)) = [Val 1]
   \<and> error_log (run [StorageReady, StorageGetResolved Undefined, CallSet (Val 1), PersistRejected]
       (Cache_new ''k'' 0 :: (nat, string) Cache)) = []
   \<and> storage_writes (run [StorageReady, StorageGetResolved Undefined, CallSet (Val 1), PersistRejected]
       (Cache_new ''k'' 0 :: (nat, string) Cache)) = []"
  by code_simp

text \<open>
  Claim C6, amended. A rejected write is ignored: the error subject emits nothing for it,
  no observer is notified, \<^verbatim>\<open>loaded\<close> is not set by it, and the value recorded by \<^verbatim>\<open>set\<close>
  and the cleared empty flag stand.
\<close>

theorem persist_failure_ignored:
  "error_log (persist_rejected s) = error_log s
   \<and> deliveries (persist_rejected s) = deliveries s
   \<and> loaded (persist_rejected s) = loaded s
   \<and> error_log (persist_rejected (set_cache v s)) = error_log s
   \<and> getValue (data (persist_rejected (set_cache v s))) = v
   \<and> empty (persist_rejected (set_cache v s)) = Some False"
  by (simp add: set_cache_eq persist_rejected_def split: list.splits)

section \<open>The probe of the storage fails\<close>

lemma fold_get_filter_frame:
  "probe_state (fold (\<lambda>c. get_filter c v) cs s) = probe_state s
   \<and> readyResolved (fold (\<lambda>c. get_filter c v) cs s) = readyResolved s
   \<and> empty (fold (\<lambda>c. get_filter c v) cs s) = empty s
   \<and> deliveries (fold (\<lambda>c. get_filter c v) cs s) = deliveries s
   \<and> ready_callbacks (fold (\<lambda>c. get_filter c v) cs s) = ready_callbacks s"
  by (induction cs arbitrary: s) (simp_all add: get_filter_frame)

lemma data_next_frame:
  "probe_state (data_next v s) = probe_state s"
  "readyResolved (data_next v s) = readyResolved s"
  "empty (data_next v s) = empty s"
  "deliveries (data_next v s) = deliveries s"
  "ready_callbacks (data_next v s) = ready_callbacks s"
  by (simp_all add: data_next_def fold_get_filter_frame)

lemma probe_state_storage_get_resolved:
  "probe_state (storage_get_resolved d s)
     = (if probe_state s = AwaitStorageGet then ProbeSettled else probe_state s)"
  by (simp add: storage_get_resolved_def Let_def readyResolve_frame data_next_frame)

lemma probe_state_producer:
  "probe_state (producer_next v s) = probe_state s"
  "probe_state (producer_error e s) = probe_state s"
  "probe_state (producer_complete s) = probe_state s"
  by (simp_all add: producer_next_def producer_error_def producer_complete_def deliver_all_def
      deliver_error_eq set_cache_eq split: option.splits)

lemma probe_state_persist:
  "probe_state (persist_resolved s) = probe_state s"
  "probe_state (persist_rejected s) = probe_state s"
  by (simp_all add: persist_resolved_def persist_rejected_def split: list.splits)

lemma probe_state_get_stream:
  "probe_state (get_stream c s) = probe_state s"
  by (simp add: get_stream_def then_ready_def run_continuation_frame)

lemma probe_state_task:
  "probe_state (task handler s) = probe_state (handler (run_microtasks s))"
  by (simp add: task_def run_microtasks_frame)

lemma probe_state_step:
  "probe_state (step ev s)
     = (case ev of
          StorageReady \<Rightarrow>
            (if probe_state s = AwaitStorageReady then AwaitStorageGet else probe_state s)
        | StorageReadyRejected \<Rightarrow>
            (if probe_state s = AwaitStorageReady then ProbeSettled else probe_state s)
        | StorageGetResolved d \<Rightarrow>
            (if probe_state s = AwaitStorageGet then ProbeSettled else probe_state s)
        | StorageGetRejected \<Rightarrow>
            (if probe_state s = AwaitStorageGet then ProbeSettled else probe_state s)
        | _ \<Rightarrow> probe_state s)"
  by (cases ev)
     (simp_all add: get_def isEmpty_def then_ready_def probe_state_get_stream
        refresh_subscribe_frame set_cache_eq setObservable_def probe_state_task
        run_microtasks_frame storage_ready_resolved_def
        storage_ready_rejected_def storage_get_rejected_def probe_state_storage_get_resolved
        probe_state_producer probe_state_persist)

text \<open>
  While the gate is closed and the flag is not true, an event other than the answer to
  the read leaves them so, and answers no \<^verbatim>\<open>isEmpty()\<close>.
\<close>

lemma closed_gate_handlers:
  assumes "\<not> readyResolved s" and "empty s \<noteq> Some True"
  shows "\<not> readyResolved (get c s) \<and> empty (get c s) \<noteq> Some True \<and> answers (get c s) = answers s"
    and "\<not> readyResolved (isEmpty c s) \<and> empty (isEmpty c s) \<noteq> Some True
         \<and> answers (isEmpty c s) = answers s"
    and "\<not> readyResolved (refresh_subscribe c s) \<and> empty (refresh_subscribe c s) \<noteq> Some True
         \<and> answers (refresh_subscribe c s) = answers s"
    and "\<not> readyResolved (set_cache v s) \<and> empty (set_cache v s) \<noteq> Some True
         \<and> answers (set_cache v s) = answers s"
    and "\<not> readyResolved (storage_ready_resolved s) \<and> empty (storage_ready_resolved s) \<noteq> Some True
         \<and> answers (storage_ready_resolved s) = answers s"
    and "\<not> readyResolved (storage_ready_rejected s) \<and> empty (storage_ready_rejected s) \<noteq> Some True
         \<and> answers (storage_ready_rejected s) = answers s"
    and "\<not> readyResolved (storage_get_rejected s) \<and> empty (storage_get_rejected s) \<noteq> Some True
         \<and> answers (storage_get_rejected s) = answers s"
    and "\<not> readyResolved (persist_resolved s) \<and> empty (persist_resolved s) \<noteq> Some True
         \<and> answers (persist_resolved s) = answers s"
    and "\<not> readyResolved (persist_rejected s) \<and> empty (persist_rejected s) \<noteq> Some True
         \<and> answers (persist_rejected s) = answers s"
    and "\<not> readyResolved (producer_next v s) \<and> empty (producer_next v s) \<noteq> Some True
         \<and> answers (producer_next v s) = answers s"
    and "\<not> readyResolved (producer_error e s) \<and> empty (producer_error e s) \<noteq> Some True
         \<and> answers (producer_error e s) = answers s"
    and "\<not> readyResolved (producer_complete s) \<and> empty (producer_complete s) \<noteq> Some True
         \<and> answers (producer_complete s) = answers s"
  using assms
  by (simp_all add: get_def isEmpty_def then_ready_def refresh_subscribe_frame set_cache_eq
      storage_ready_resolved_def storage_ready_rejected_def storage_get_rejected_def
      persist_resolved_def persist_rejected_def producer_next_def producer_error_def
      producer_complete_def deliver_all_def deliver_error_eq split: list.splits option.splits)

lemma closed_gate_get_stream:
  assumes "\<not> readyResolved s" and "empty s \<noteq> Some True"
  shows "\<not> readyResolved (get_stream c s) \<and> empty (get_stream c s) \<noteq> Some True
         \<and> answers (get_stream c s) = answers s"
  using assms
  by (simp add: get_stream_def then_ready_def run_continuation_def get_filter_not_empty)

lemma closed_gate_other_step:
  assumes "\<not> readyResolved s" and "empty s \<noteq> Some True"
    and "probe_state s \<noteq> AwaitStorageGet \<or> (\<forall>d. ev \<noteq> StorageGetResolved d)"
  shows "\<not> readyResolved (step ev s) \<and> empty (step ev s) \<noteq> Some True
         \<and> answers (step ev s) = answers s"
proof (cases ev)
  case (StorageGetResolved d)
  with assms(3) have "probe_state s \<noteq> AwaitStorageGet" by simp
  then have "storage_get_resolved d s = s"
    by (simp add: storage_get_resolved_def)
  then show ?thesis
    using StorageGetResolved assms(1,2) by (simp add: task_closed)
next
  case (SubscribeStream c)
  then show ?thesis using closed_gate_get_stream [OF assms(1,2)] by simp
qed (use closed_gate_handlers [OF assms(1,2)] assms(1,2) in
      \<open>simp_all add: task_closed run_microtasks_closed setObservable_def\<close>)

lemma closed_gate_run:
  assumes "probe_state s = ProbeSettled" and "\<not> readyResolved s" and "empty s \<noteq> Some True"
  shows "probe_state (run evs s) = ProbeSettled \<and> \<not> readyResolved (run evs s)
         \<and> empty (run evs s) \<noteq> Some True \<and> answers (run evs s) = answers s"
  using assms
proof (induction evs arbitrary: s)
  case Nil
  then show ?case by (simp add: run_def)
next
  case (Cons ev evs)
  have p: "probe_state (step ev s) = ProbeSettled"
    using Cons.prems(1) by (simp add: probe_state_step split: event.splits)
  have st: "\<not> readyResolved (step ev s) \<and> empty (step ev s) \<noteq> Some True
            \<and> answers (step ev s) = answers s"
    using Cons.prems by (intro closed_gate_other_step) simp_all
  have "run (ev # evs) s = run evs (step ev s)"
    by (simp add: run_def)
  with Cons.IH [of "step ev s"] p st show ?case by simp
qed

text \<open>While the probe is outstanding the gate is closed and the flag is not true.\<close>

lemma probe_outstanding_step:
  assumes "\<not> readyResolved s" and "empty s \<noteq> Some True"
  shows "probe_state (step ev s) = ProbeSettled
         \<or> (\<not> readyResolved (step ev s) \<and> empty (step ev s) \<noteq> Some True)"
proof (cases "probe_state s \<noteq> AwaitStorageGet \<or> (\<forall>d. ev \<noteq> StorageGetResolved d)")
  case True
  with assms show ?thesis by (simp add: closed_gate_other_step)
next
  case False
  then show ?thesis by (auto simp: probe_state_step)
qed

lemma probe_outstanding_run:
  assumes "probe_state s \<noteq> NoProbe"
    and "probe_state s = ProbeSettled \<or> (\<not> readyResolved s \<and> empty s \<noteq> Some True)"
  shows "probe_state (run evs s) \<noteq> NoProbe
         \<and> (probe_state (run evs s) = ProbeSettled
             \<or> (\<not> readyResolved (run evs s) \<and> empty (run evs s) \<noteq> Some True))"
  using assms
proof (induction evs arbitrary: s)
  case Nil
  then show ?case by (simp add: run_def)
next
  case (Cons ev evs)
  have r: "run (ev # evs) s = run evs (step ev s)"
    by (simp add: run_def)
  have a: "probe_state (step ev s) \<noteq> NoProbe"
    using Cons.prems(1) by (simp add: probe_state_step split: event.splits)
  have b: "probe_state (step ev s) = ProbeSettled
           \<or> (\<not> readyResolved (step ev s) \<and> empty (step ev s) \<noteq> Some True)"
  proof (cases "probe_state s = ProbeSettled")
    case True
    then show ?thesis by (simp add: probe_state_step split: event.splits)
  next
    case False
    with Cons.prems(2) show ?thesis by (simp add: probe_outstanding_step)
  qed
  show ?case
    unfolding r using a b by (rule Cons.IH)
qed

lemma probe_outstanding_reachable:
  assumes "s = run evs (Cache_new n obs)" and "probe_state s \<noteq> ProbeSettled"
  shows "\<not> readyResolved s \<and> empty s \<noteq> Some True"
proof -
  have "probe_state (Cache_new n obs :: ('a, 'b) Cache) \<noteq> NoProbe"
    and "\<not> readyResolved (Cache_new n obs :: ('a, 'b) Cache)
         \<and> empty (Cache_new n obs :: ('a, 'b) Cache) \<noteq> Some True"
    by (simp_all add: Cache_new_def Cache_init_def constructor_def)
  from probe_outstanding_run [OF this(1), of evs] this(2) assms show ?thesis
    by simp
qed

text \<open>
  Claim C2, as the spec states it, fails: after either failure of the probe the gate is
  not signalled and the empty flag is not true; a \<^verbatim>\<open>get()\<close> and an \<^verbatim>\<open>isEmpty()\<close> issued
  afterwards wait among the callbacks of the gate and receive nothing.
\<close>

theorem probe_failure_counterexample:
  "\<not> readyResolved (run [StorageReadyRejected, CallGet (App 1), CallIsEmpty (App 2)]
        (Cache_new ''k'' 0 :: (nat, string) Cache))
   \<and> empty (run [StorageReadyRejected, CallGet (App 1), CallIsEmpty (App 2)]
        (Cache_new ''k'' 0 :: (nat, string) Cache)) = None
   \<and> ready_callbacks (run [StorageReadyRejected, CallGet (App 1), CallIsEmpty (App 2)]
        (Cache_new ''k'' 0 :: (nat, string) Cache)) = [GetK (App 1), IsEmptyK (App 2)]
   \<and> deliveries (run [StorageReadyRejected, CallGet (App 1), CallIsEmpty (App 2)]
        (Cache_new ''k'' 0 :: (nat, string) Cache)) = []
   \<and> answers (run [StorageReadyRejected, CallGet (App 1), CallIsEmpty (App 2)]
        (Cache_new ''k'' 0 :: (nat, string) Cache)) = []
   \<and> \<not> readyResolved (run [StorageReady, StorageGetRejected, CallGet (App 1), CallIsEmpty (App 2)]
        (Cache_new ''k'' 0 :: (nat, string) Cache))
   \<and> empty (run [StorageReady, StorageGetRejected, CallGet (App 1), CallIsEmpty (App 2)]
        (Cache_new ''k'' 0 :: (nat, string) Cache)) = None
   \<and> answers (run [StorageReady, StorageGetRejected, CallGet (App 1), CallIsEmpty (App 2)]
        (Cache_new ''k'' 0 :: (nat, string) Cache)) = []"
  by code_simp

text \<open>
  Claim C2, amended. In every state that a cache reaches from its construction, a failure
  of the outstanding probe, of the access or of the read, emits its message on the error
  subject and changes nothing else of the cache: the gate is not signalled and the flag
  is not set. From then on no event signals the gate or sets the flag to true:
  \<^verbatim>\<open>isEmpty()\<close> is never answered and a \<^verbatim>\<open>get()\<close> only joins the callbacks that wait for the
  gate.
\<close>

theorem probe_failure_reported_gate_closed:
  assumes "s = run evs0 (Cache_new n obs)"
    and "(probe_state s = AwaitStorageReady \<and> s' = storage_ready_rejected s
              \<and> m = access_message)
           \<or> (probe_state s = AwaitStorageGet \<and> s' = storage_get_rejected s
              \<and> m = retrieve_message (name s))"
  shows "s' = s\<lparr>error_log := error_log s @ [Message m], probe_state := ProbeSettled\<rparr>
         \<and> \<not> readyResolved s
         \<and> \<not> readyResolved (run evs s')
         \<and> empty (run evs s') \<noteq> Some True
         \<and> answers (run evs s') = answers s
         \<and> get c (run evs s')
             = (run evs s')\<lparr>ready_callbacks := ready_callbacks (run evs s') @ [GetK c]\<rparr>"
proof -
  have "probe_state s \<noteq> ProbeSettled"
    using assms(2) by auto
  with assms(1) have closed: "\<not> readyResolved s" and flag: "empty s \<noteq> Some True"
    using probe_outstanding_reachable by blast+
  have eq: "s' = s\<lparr>error_log := error_log s @ [Message m], probe_state := ProbeSettled\<rparr>"
    using assms(2) by (auto simp: storage_ready_rejected_def storage_get_rejected_def)
  have "probe_state s' = ProbeSettled" and "\<not> readyResolved s'" and "empty s' \<noteq> Some True"
    and an: "answers s' = answers s"
    using closed flag by (simp_all add: eq)
  from closed_gate_run [OF this(1,2,3), of evs]
  have run: "\<not> readyResolved (run evs s')" "empty (run evs s') \<noteq> Some True"
    "answers (run evs s') = answers s'"
    by simp_all
  have "get c (run evs s')
          = (run evs s')\<lparr>ready_callbacks := ready_callbacks (run evs s') @ [GetK c]\<rparr>"
    using run(1) by (simp add: get_def then_ready_def)
  with eq closed run an show ?thesis by simp
qed

theorem probe_failure_reported_gate_closed_witness:
  "error_log (storage_ready_rejected (run [CallGet (App 3)] (Cache_new ''k'' 0 :: (nat, string) Cache)))
     = [Message ''Cache failed to access local storage.'']
   \<and> \<not> readyResolved (run [CallSet (Val 1), CallIsEmpty (App 2)]
          (storage_ready_rejected (run [CallGet (App 3)] (Cache_new ''k'' 0 :: (nat, string) Cache))))
   \<and> answers (run [CallSet (Val 1), CallIsEmpty (App 2)]
          (storage_ready_rejected (run [CallGet (App 3)] (Cache_new ''k'' 0 :: (nat, string) Cache)))) = []"
proof -
  let ?s = "run [CallGet (App 3)] (Cache_new ''k'' 0 :: (nat, string) Cache)"
  have h: "(probe_state ?s = AwaitStorageReady
               \<and> storage_ready_rejected ?s = storage_ready_rejected ?s
               \<and> access_message = access_message)
            \<or> (probe_state ?s = AwaitStorageGet
               \<and> storage_ready_rejected ?s = storage_get_rejected ?s
               \<and> access_message = retrieve_message (name ?s))"
    by code_simp
  note w = probe_failure_reported_gate_closed
    [OF refl h, of "[CallSet (Val 1), CallIsEmpty (App 2)]" "App 1"]
  have facts: "error_log ?s = []" "answers ?s = []"
    by code_simp+
  have e: "storage_ready_rejected ?s
      = ?s\<lparr>error_log := error_log ?s @ [Message access_message], probe_state := ProbeSettled\<rparr>"
    using w by (rule conjunct1)
  have "error_log (storage_ready_rejected ?s) = error_log ?s @ [Message access_message]"
    by (subst e) simp
  then have a: "error_log (storage_ready_rejected ?s)
      = [Message ''Cache failed to access local storage.'']"
    by (simp add: access_message_def facts)
  have b: "\<not> readyResolved (run [CallSet (Val 1), CallIsEmpty (App 2)] (storage_ready_rejected ?s))"
    using w by (rule conjunct2 [THEN conjunct2, THEN conjunct1])
  have "answers (run [CallSet (Val 1), CallIsEmpty (App 2)] (storage_ready_rejected ?s)) = answers ?s"
    using w by (rule conjunct2 [THEN conjunct2, THEN conjunct2, THEN conjunct2, THEN conjunct1])
  then have c: "answers (run [CallSet (Val 1), CallIsEmpty (App 2)] (storage_ready_rejected ?s)) = []"
    by (simp add: facts)
  from a b c show ?thesis by simp
qed

section \<open>Null and the flag allowNull\<close>

text \<open>
  Claim C3 fails on the code at this input: a cache with \<^verbatim>\<open>allowNull\<close> false that loaded
  the value 1, one observer subscribed to \<^verbatim>\<open>get$\<close>, and in a later turn \<^verbatim>\<open>set(null)\<close>. The
  observer receives 1 and then null: the filter's last line tests the subject, not its
  value.
\<close>

theorem null_reaches_stream:
  "allowNull (run [StorageReady, StorageGetResolved (Val 1), SubscribeStream (App 1), Microtasks,
        CallSet Null]
      (Cache_new ''k'' 0 :: (nat, string) Cache)) = False
   \<and> stream_log (run [StorageReady, StorageGetResolved (Val 1), SubscribeStream (App 1), Microtasks,
        CallSet Null]
      (Cache_new ''k'' 0 :: (nat, string) Cache)) = [(App 1, Val 1), (App 1, Null)]"
  by code_simp

text \<open>
  Claim C4, as the spec states it, fails for a null that a refresh produces: with
  \<^verbatim>\<open>allowNull\<close> false and the cache empty, the producer emits null and completes; the flag
  is then false, and the next \<^verbatim>\<open>get()\<close> yields null and subscribes to no producer.
\<close>

theorem produced_null_counterexample:
  "allowNull (run [StorageReady, StorageGetResolved Undefined, CallRefresh (App 1)]
      (Cache_new ''k'' 0 :: (nat, string) Cache)) = False
   \<and> empty (run [StorageReady, StorageGetResolved Undefined, CallRefresh (App 1)]
      (Cache_new ''k'' 0 :: (nat, string) Cache)) = Some True
   \<and> empty (run [StorageReady, StorageGetResolved Undefined, CallRefresh (App 1),
           ProducerNext Null, ProducerComplete]
      (Cache_new ''k'' 0 :: (nat, string) Cache)) = Some False
   \<and> invocations (run [StorageReady, StorageGetResolved Undefined, CallRefresh (App 1),
           ProducerNext Null, ProducerComplete, CallGet (App 2), Microtasks]
      (Cache_new ''k'' 0 :: (nat, string) Cache)) = [0]
   \<and> deliveries (run [StorageReady, StorageGetResolved Undefined, CallRefresh (App 1),
           ProducerNext Null, ProducerComplete, CallGet (App 2), Microtasks]
      (Cache_new ''k'' 0 :: (nat, string) Cache))
       = [(App 1, Next Null), (App 1, Complete), (App 2, Next Null), (App 2, Complete)]"
  by code_simp

lemma in_flight_refresh_subscribe: "in_flight (refresh_subscribe c s)"
  by (simp add: refresh_subscribe_eq in_flight_def split: option.splits)


lemma invocations_refresh_subscribe_idle:
  "refreshObservable s = None \<Longrightarrow>
   invocations (refresh_subscribe c s) = invocations s @ [observable s]"
  by (simp add: refresh_subscribe_eq)

lemma invocations_refresh_subscribe_in_flight:
  "in_flight s \<Longrightarrow> invocations (refresh_subscribe c s) = invocations s"
  by (auto simp: refresh_subscribe_eq in_flight_def split: option.splits)

lemma storage_get_resolved_rejects:
  assumes "probe_state s = AwaitStorageGet" and "d = Undefined \<or> (d = Null \<and> \<not> allowNull s)"
  shows "storage_get_resolved d s
           = readyResolve (s\<lparr>probe_state := ProbeSettled, empty := Some True, loaded := True\<rparr>)"
  using assms by (auto simp: storage_get_resolved_def Let_def)

subsection \<open>The callbacks of the gate on an empty cache\<close>

lemma run_microtasks_then_ready:
  assumes "readyResolved s"
  shows "run_microtasks (then_ready k s) = run_continuation k (run_microtasks s)"
  using assms by (simp add: run_microtasks_def then_ready_def)

lemma run_continuation_empty:
  assumes "empty s = Some True"
  shows "run_continuation (GetK c) s = refresh_subscribe c s"
    and "run_continuation (StreamK c) s
          = refresh_subscribe Internal
              (s\<lparr>stream_scalar := True,
                 data := BehaviorSubject (getValue (data s)) (observers (data s) @ [c])\<rparr>)"
  using assms by (simp_all add: run_continuation_def get_filter_def)

text \<open>
  On an empty cache whose slot was empty, the callbacks of the gate subscribe to the
  bound producer at most once, and none of them delivers a value.
\<close>

lemma once_run_continuation:
  assumes "empty s = Some True" and "observable s = p"
    and "(refreshObservable s = None \<and> invocations s = i)
         \<or> (in_flight s \<and> invocations s = i @ [p])"
  shows "empty (run_continuation k s) = Some True \<and> observable (run_continuation k s) = p
    \<and> ((refreshObservable (run_continuation k s) = None \<and> invocations (run_continuation k s) = i)
       \<or> (in_flight (run_continuation k s) \<and> invocations (run_continuation k s) = i @ [p]))
    \<and> stream_log (run_continuation k s) = stream_log s"
proof (cases k)
  case (GetK c)
  then show ?thesis
    using assms
    by (auto simp: run_continuation_empty refresh_subscribe_frame in_flight_refresh_subscribe
        invocations_refresh_subscribe_idle invocations_refresh_subscribe_in_flight)
next
  case (StreamK c)
  let ?s = "s\<lparr>stream_scalar := True,
               data := BehaviorSubject (getValue (data s)) (observers (data s) @ [c])\<rparr>"
  have "(refreshObservable ?s = None \<and> invocations ?s = i)
         \<or> (in_flight ?s \<and> invocations ?s = i @ [p])" and "observable ?s = p"
    using assms(2,3) by (simp_all add: in_flight_def)
  then show ?thesis
    using StreamK assms(1)
    by (auto simp: run_continuation_empty refresh_subscribe_frame in_flight_refresh_subscribe
        invocations_refresh_subscribe_idle invocations_refresh_subscribe_in_flight)
next
  case (IsEmptyK c)
  then show ?thesis using assms by (simp add: run_continuation_def in_flight_def)
next
  case (PersistK v)
  then show ?thesis using assms by (simp add: run_continuation_def in_flight_def)
qed

lemma joined_run_continuation:
  assumes "empty s = Some True" and "observable s = p"
    and "(refreshObservable s = None \<and> invocations s = i)
         \<or> (in_flight s \<and> invocations s = i @ [p])"
    and "k = GetK c \<or> k = StreamK c"
  shows "in_flight (run_continuation k s) \<and> invocations (run_continuation k s) = i @ [p]"
proof -
  have "in_flight (run_continuation k s)"
    using assms(1,4) by (auto simp: run_continuation_empty in_flight_refresh_subscribe)
  moreover have "refreshObservable (run_continuation k s) \<noteq> None"
    using calculation by (auto simp: in_flight_def split: option.splits)
  ultimately show ?thesis
    using once_run_continuation [OF assms(1,2,3), of k] by auto
qed

lemma once_fold_run_continuation:
  assumes "empty s = Some True" and "observable s = p"
    and "(refreshObservable s = None \<and> invocations s = i)
         \<or> (in_flight s \<and> invocations s = i @ [p])"
  shows "empty (fold run_continuation ks s) = Some True
    \<and> observable (fold run_continuation ks s) = p
    \<and> ((refreshObservable (fold run_continuation ks s) = None
          \<and> invocations (fold run_continuation ks s) = i)
       \<or> (in_flight (fold run_continuation ks s)
          \<and> invocations (fold run_continuation ks s) = i @ [p]))
    \<and> stream_log (fold run_continuation ks s) = stream_log s"
  using assms
proof (induction ks arbitrary: s)
  case Nil
  then show ?case by simp
next
  case (Cons k ks)
  note st = once_run_continuation [OF Cons.prems, of k]
  from st have a: "empty (run_continuation k s) = Some True"
    and b: "observable (run_continuation k s) = p"
    and c: "(refreshObservable (run_continuation k s) = None
              \<and> invocations (run_continuation k s) = i)
            \<or> (in_flight (run_continuation k s) \<and> invocations (run_continuation k s) = i @ [p])"
    and d: "stream_log (run_continuation k s) = stream_log s"
    by blast+
  from Cons.IH [OF a b c] d show ?case by simp
qed

lemma once_run_microtasks:
  assumes "empty s = Some True" and "observable s = p"
    and "(refreshObservable s = None \<and> invocations s = i)
         \<or> (in_flight s \<and> invocations s = i @ [p])"
  shows "empty (run_microtasks s) = Some True
    \<and> observable (run_microtasks s) = p
    \<and> ((refreshObservable (run_microtasks s) = None \<and> invocations (run_microtasks s) = i)
       \<or> (in_flight (run_microtasks s) \<and> invocations (run_microtasks s) = i @ [p]))
    \<and> stream_log (run_microtasks s) = stream_log s"
proof (cases "readyResolved s")
  case False
  then show ?thesis using assms by (simp add: run_microtasks_def)
next
  case True
  let ?s = "s\<lparr>ready_callbacks := []\<rparr>"
  have "empty ?s = Some True" and "observable ?s = p"
    and "(refreshObservable ?s = None \<and> invocations ?s = i)
         \<or> (in_flight ?s \<and> invocations ?s = i @ [p])"
    using assms by (simp_all add: in_flight_def)
  from once_fold_run_continuation [OF this, of "ready_callbacks s"] True
  show ?thesis by (simp add: run_microtasks_def)
qed

lemma in_flight_update [simp]:
  "in_flight (s\<lparr>observable := x1\<rparr>) = in_flight s"
  "in_flight (s\<lparr>useLocalStorage := x2\<rparr>) = in_flight s"
  "in_flight (s\<lparr>loaded := x3\<rparr>) = in_flight s"
  "in_flight (s\<lparr>empty := x4\<rparr>) = in_flight s"
  "in_flight (s\<lparr>allowNull := x5\<rparr>) = in_flight s"
  "in_flight (s\<lparr>data := x6\<rparr>) = in_flight s"
  "in_flight (s\<lparr>readyResolved := x7\<rparr>) = in_flight s"
  "in_flight (s\<lparr>ready_callbacks := x8\<rparr>) = in_flight s"
  "in_flight (s\<lparr>stream_scalar := x9\<rparr>) = in_flight s"
  "in_flight (s\<lparr>probe_state := y1\<rparr>) = in_flight s"
  "in_flight (s\<lparr>storage_writes := y2\<rparr>) = in_flight s"
  "in_flight (s\<lparr>error_log := y3\<rparr>) = in_flight s"
  "in_flight (s\<lparr>uncaught := y4\<rparr>) = in_flight s"
  "in_flight (s\<lparr>invocations := y5\<rparr>) = in_flight s"
  "in_flight (s\<lparr>settled := y6\<rparr>) = in_flight s"
  "in_flight (s\<lparr>deliveries := y7\<rparr>) = in_flight s"
  "in_flight (s\<lparr>stream_log := y8\<rparr>) = in_flight s"
  "in_flight (s\<lparr>answers := y9\<rparr>) = in_flight s"
  by (simp_all add: in_flight_def)

lemma in_flight_run_continuation:
  "in_flight s \<Longrightarrow> in_flight (run_continuation k s)"
  by (cases k)
     (simp_all add: run_continuation_def get_filter_def in_flight_refresh_subscribe)

lemma in_flight_fold_run_continuation:
  "in_flight s \<Longrightarrow> in_flight (fold run_continuation ks s)"
  by (induction ks arbitrary: s) (simp_all add: in_flight_run_continuation)

lemma in_flight_run_microtasks:
  assumes "in_flight s"
  shows "in_flight (run_microtasks s)"
proof -
  have "in_flight (s\<lparr>ready_callbacks := []\<rparr>)"
    using assms by simp
  then show ?thesis
    using assms by (simp add: run_microtasks_def in_flight_fold_run_continuation)
qed

lemma withheld_run_continuation:
  "stream_log (run_continuation k s) = stream_log s" if "empty s = Some True"
proof (cases k)
  case (GetK c)
  then show ?thesis
    using that by (simp add: run_continuation_empty refresh_subscribe_frame)
next
  case (StreamK c)
  then show ?thesis
    using that by (simp add: run_continuation_empty refresh_subscribe_frame)
qed (simp_all add: run_continuation_def)

lemma withheld_fold_run_continuation:
  "empty s = Some True \<Longrightarrow> stream_log (fold run_continuation ks s) = stream_log s"
  by (induction ks arbitrary: s) (simp_all add: withheld_run_continuation run_continuation_frame)

lemma withheld_run_microtasks:
  "empty s = Some True \<Longrightarrow> stream_log (run_microtasks s) = stream_log s"
  by (simp add: run_microtasks_def withheld_fold_run_continuation)

text \<open>
  Claim C4, amended to the load. With \<^verbatim>\<open>allowNull\<close> false, a null read from the storage is
  not recorded: the subject keeps its value, the flag is true and the gate is signalled
  (and when the gate was closed before, no callback is left to run). The next \<^verbatim>\<open>get()\<close>,
  when the turn of its call ends, is a subscription to the refresh, and so is the next
  delivery attempt of \<^verbatim>\<open>get$\<close>, which withholds the value; after either a producer is
  running, and it was subscribed once since the load when the slot was empty then.
\<close>

theorem loaded_null_leaves_empty:
  assumes "probe_state s = AwaitStorageGet" and "\<not> allowNull s"
    and "s' = storage_get_resolved Null s"
  shows "empty s' = Some True \<and> readyResolved s'
         \<and> getValue (data s') = getValue (data s)
         \<and> (\<not> readyResolved s \<longrightarrow> run_microtasks s' = s')
         \<and> run_microtasks (get c s') = refresh_subscribe c (run_microtasks s')
         \<and> in_flight (run_microtasks (get c s'))
         \<and> (refreshObservable s' = None
              \<longrightarrow> invocations (run_microtasks (get c s')) = invocations s' @ [observable s'])
         \<and> in_flight (run_microtasks (get_stream c s'))
         \<and> stream_log (run_microtasks (get_stream c s')) = stream_log s'
         \<and> (refreshObservable s' = None
              \<longrightarrow> invocations (run_microtasks (get_stream c s'))
                    = invocations s' @ [observable s'])"
proof -
  have eq: "s' = readyResolve (s\<lparr>probe_state := ProbeSettled, empty := Some True, loaded := True\<rparr>)"
    using assms by (simp add: storage_get_resolved_rejects)
  have e: "empty s' = Some True" and r: "readyResolved s'"
    and d: "getValue (data s') = getValue (data s)"
    by (simp_all add: eq readyResolve_frame)
  have q: "run_microtasks s' = s'" if "\<not> readyResolved s"
    using that by (intro run_microtasks_idle) (simp add: eq readyResolve_frame)
  have em: "empty (run_microtasks s') = Some True"
    using e by (simp add: run_microtasks_frame)
  have g: "run_microtasks (get c s') = refresh_subscribe c (run_microtasks s')"
    using r em by (simp add: get_def run_microtasks_then_ready run_continuation_empty)
  have gf: "in_flight (run_microtasks (get c s'))"
    by (simp add: g in_flight_refresh_subscribe)
  have idle: "(refreshObservable s' = None \<and> invocations s' = invocations s')
       \<or> (in_flight s' \<and> invocations s' = invocations s' @ [observable s'])"
    if "refreshObservable s' = None"
    using that by simp
  have gi: "invocations (run_microtasks (get c s')) = invocations s' @ [observable s']"
    if n: "refreshObservable s' = None"
  proof -
    note m = once_run_microtasks [OF e refl idle [OF n]]
    from m have a: "empty (run_microtasks s') = Some True"
      and b: "observable (run_microtasks s') = observable s'"
      and c: "(refreshObservable (run_microtasks s') = None
                \<and> invocations (run_microtasks s') = invocations s')
              \<or> (in_flight (run_microtasks s')
                \<and> invocations (run_microtasks s') = invocations s' @ [observable s'])"
      by blast+
    from joined_run_continuation [OF a b c, of "GetK c" c]
    show ?thesis
      using r by (simp add: get_def run_microtasks_then_ready)
  qed
  have st: "in_flight (run_microtasks (get_stream c s'))
      \<and> stream_log (run_microtasks (get_stream c s')) = stream_log s'
      \<and> (refreshObservable s' = None
           \<longrightarrow> invocations (run_microtasks (get_stream c s'))
                 = invocations s' @ [observable s'])"
  proof (cases "stream_scalar s'")
    case True
    let ?t = "run_continuation (StreamK c) s'"
    have t: "get_stream c s' = ?t"
      using True by (simp add: get_stream_def)
    have tf: "in_flight ?t"
      using e by (simp add: run_continuation_empty in_flight_refresh_subscribe)
    have te: "empty ?t = Some True"
      using e by (simp add: run_continuation_frame)
    have tl: "stream_log ?t = stream_log s'"
      using e by (rule withheld_run_continuation)
    have ti: "invocations (run_microtasks ?t) = invocations s' @ [observable s']"
      if n: "refreshObservable s' = None"
    proof -
      from joined_run_continuation [OF e refl idle [OF n], of "StreamK c" c]
      have j: "in_flight ?t \<and> invocations ?t = invocations s' @ [observable s']"
        by simp
      have ob: "observable ?t = observable s'"
        by (simp add: run_continuation_frame)
      from j have "(refreshObservable ?t = None \<and> invocations ?t = invocations s')
          \<or> (in_flight ?t \<and> invocations ?t = invocations s' @ [observable s'])"
        by simp
      from once_run_microtasks [OF te ob this] in_flight_run_microtasks [OF tf]
      show ?thesis
        by (auto simp: in_flight_def)
    qed
    show ?thesis
      using ti by (simp add: t in_flight_run_microtasks [OF tf] withheld_run_microtasks [OF te] tl)
  next
    case False
    have t: "run_microtasks (get_stream c s')
        = run_continuation (StreamK c) (run_microtasks s')"
      using False r by (simp add: get_stream_def run_microtasks_then_ready)
    have tf: "in_flight (run_continuation (StreamK c) (run_microtasks s'))"
      using em by (simp add: run_continuation_empty in_flight_refresh_subscribe)
    have tl: "stream_log (run_continuation (StreamK c) (run_microtasks s')) = stream_log s'"
      using em e by (simp add: withheld_run_continuation withheld_run_microtasks)
    have ti: "invocations (run_continuation (StreamK c) (run_microtasks s'))
        = invocations s' @ [observable s']"
      if n: "refreshObservable s' = None"
    proof -
      note m = once_run_microtasks [OF e refl idle [OF n]]
      from m have a: "empty (run_microtasks s') = Some True"
        and b: "observable (run_microtasks s') = observable s'"
        and c: "(refreshObservable (run_microtasks s') = None
                  \<and> invocations (run_microtasks s') = invocations s')
                \<or> (in_flight (run_microtasks s')
                  \<and> invocations (run_microtasks s') = invocations s' @ [observable s'])"
        by blast+
      from joined_run_continuation [OF a b c, of "StreamK c" c]
      show ?thesis by simp
    qed
    show ?thesis
      using ti by (simp add: t tf tl)
  qed
  from e r d q g gf gi st show ?thesis by blast
qed

theorem loaded_null_leaves_empty_witness:
  "empty (storage_get_resolved Null (storage_ready_resolved (Cache_new ''k'' 0 :: (nat, string) Cache)))
     = Some True
   \<and> invocations (run_microtasks (get (App 3)
        (storage_get_resolved Null (storage_ready_resolved (Cache_new ''k'' 0 :: (nat, string) Cache)))))
     = [0]"
proof -
  let ?s = "storage_ready_resolved (Cache_new ''k'' 0 :: (nat, string) Cache)"
  have h1: "probe_state ?s = AwaitStorageGet" and h2: "\<not> allowNull ?s"
    by (simp_all add: storage_ready_resolved_def Cache_new_def Cache_init_def constructor_def)
  note w = loaded_null_leaves_empty [OF h1 h2 refl, of "App 3"]
  have a: "empty (storage_get_resolved Null ?s) = Some True"
    using w by (rule conjunct1)
  have s: "refreshObservable (storage_get_resolved Null ?s) = None"
    and i: "invocations (storage_get_resolved Null ?s) = []"
    and ob: "observable (storage_get_resolved Null ?s) = 0"
    by code_simp+
  from w s have "invocations (run_microtasks (get (App 3) (storage_get_resolved Null ?s)))
      = invocations (storage_get_resolved Null ?s) @ [observable (storage_get_resolved Null ?s)]"
    by blast
  then have b: "invocations (run_microtasks (get (App 3) (storage_get_resolved Null ?s))) = [0]"
    by (simp add: i ob)
  from a b show ?thesis by simp
qed

section \<open>get() and the refresh it delegates to\<close>









section \<open>A producer that fails\<close>

text \<open>
  Claim C8. A producer is running and fails with \<open>e\<close>: the error subject emits \<open>e\<close>, the
  subject, the empty flag and the value stream are as before (so \<^verbatim>\<open>isEmpty()\<close> on a ready
  cache answers what the flag was, when the turn of its call ends), and the slot is
  emptied: the next \<^verbatim>\<open>refresh()\<close> with its subscription subscribes once more to the
  producer bound to the cache. The failure is handed to the attached observers in their
  order, up to the first that has no error callback.
\<close>

theorem producer_failure_reported_and_slot_released:
  assumes "in_flight s"
  shows "error_log (producer_error e s) = error_log s @ [Thrown e]
         \<and> data (producer_error e s) = data s
         \<and> empty (producer_error e s) = empty s
         \<and> stream_log (producer_error e s) = stream_log s
         \<and> (\<exists>h. refreshObservable s = Some h
               \<and> deliveries (producer_error e s)
                    = deliveries s
                        @ map (\<lambda>x. (x, Error e)) (takeWhile has_error_callback (attached h)))
         \<and> (readyResolved s \<longrightarrow>
               answers (run_microtasks (isEmpty c (producer_error e s)))
                 = answers (run_microtasks (producer_error e s)) @ [(c, empty s)])
         \<and> refreshObservable (producer_error e s) = None
         \<and> settled (producer_error e s) = Suc (settled s)
         \<and> invocations (producer_error e s) = invocations s
         \<and> invocations (refresh_subscribe c (producer_error e s))
              = invocations s @ [observable s]
         \<and> refreshObservable (refresh_subscribe c (producer_error e s))
              = Some (Refresh (observable s) [c])"
proof -
  obtain h where h: "refreshObservable s = Some h" "attached h \<noteq> []"
    using assms by (auto simp: in_flight_def split: option.splits)
  note eq = producer_error_eq [OF h, of e]
  have "answers (run_microtasks (isEmpty c (producer_error e s)))
      = answers (run_microtasks (producer_error e s)) @ [(c, empty s)]"
    if "readyResolved s"
  proof -
    have r: "readyResolved (producer_error e s)" and em: "empty (producer_error e s) = empty s"
      using that by (simp_all add: eq)
    have "run_microtasks (isEmpty c (producer_error e s))
        = run_continuation (IsEmptyK c) (run_microtasks (producer_error e s))"
      using r by (simp add: isEmpty_def run_microtasks_then_ready)
    then show ?thesis
      by (simp add: run_continuation_def run_microtasks_frame em)
  qed
  then show ?thesis
    using h(1) by (simp add: eq refresh_subscribe_eq)
qed

theorem producer_failure_reported_and_slot_released_witness:
  "error_log (producer_error ''E''
      (run [StorageReady, StorageGetResolved Undefined, CallRefresh (App 3)]
         (Cache_new ''k'' 0 :: (nat, string) Cache))) = [Thrown ''E'']
   \<and> invocations (refresh_subscribe (App 4) (producer_error ''E''
      (run [StorageReady, StorageGetResolved Undefined, CallRefresh (App 3)]
         (Cache_new ''k'' 0 :: (nat, string) Cache)))) = [0, 0]
   \<and> answers (run_microtasks (isEmpty (App 4) (producer_error ''E''
      (run [StorageReady, StorageGetResolved Undefined, CallRefresh (App 3)]
         (Cache_new ''k'' 0 :: (nat, string) Cache))))) = [(App 4, Some True)]"
proof -
  let ?s = "run [StorageReady, StorageGetResolved Undefined, CallRefresh (App 3)]
              (Cache_new ''k'' 0 :: (nat, string) Cache)"
  have h: "in_flight ?s" by code_simp
  note w = producer_failure_reported_and_slot_released [OF h, of "''E''" "App 4"]
  have facts: "error_log ?s = []" "invocations ?s = [0]" "observable ?s = 0"
    "answers (run_microtasks (producer_error ''E'' ?s)) = []" "empty ?s = Some True"
    "readyResolved ?s"
    by code_simp+
  from w have "error_log (producer_error ''E'' ?s) = error_log ?s @ [Thrown ''E'']"
    by blast
  then have a: "error_log (producer_error ''E'' ?s) = [Thrown ''E'']"
    by (simp add: facts)
  from w have "invocations (refresh_subscribe (App 4) (producer_error ''E'' ?s))
      = invocations ?s @ [observable ?s]"
    by blast
  then have b: "invocations (refresh_subscribe (App 4) (producer_error ''E'' ?s)) = [0, 0]"
    by (simp add: facts)
  from w facts(6) have "answers (run_microtasks (isEmpty (App 4) (producer_error ''E'' ?s)))
      = answers (run_microtasks (producer_error ''E'' ?s)) @ [(App 4, empty ?s)]"
    by blast
  then have c: "answers (run_microtasks (isEmpty (App 4) (producer_error ''E'' ?s)))
      = [(App 4, Some True)]"
    by (simp add: facts)
  from a b c show ?thesis by simp
qed

section \<open>get() is a one-shot read\<close>

















section \<open>The registry\<close>







section \<open>Single flight\<close>

subsection \<open>The slot and the count of running producers agree in every state\<close>

lemma slot_agrees_update [simp]:
  "slot_agrees (s\<lparr>observable := x1\<rparr>) = slot_agrees s"
  "slot_agrees (s\<lparr>useLocalStorage := x2\<rparr>) = slot_agrees s"
  "slot_agrees (s\<lparr>loaded := x3\<rparr>) = slot_agrees s"
  "slot_agrees (s\<lparr>empty := x4\<rparr>) = slot_agrees s"
  "slot_agrees (s\<lparr>allowNull := x5\<rparr>) = slot_agrees s"
  "slot_agrees (s\<lparr>data := x6\<rparr>) = slot_agrees s"
  "slot_agrees (s\<lparr>readyResolved := x7\<rparr>) = slot_agrees s"
  "slot_agrees (s\<lparr>ready_callbacks := x8\<rparr>) = slot_agrees s"
  "slot_agrees (s\<lparr>stream_scalar := z1\<rparr>) = slot_agrees s"
  "slot_agrees (s\<lparr>uncaught := z2\<rparr>) = slot_agrees s"
  "slot_agrees (s\<lparr>probe_state := x9\<rparr>) = slot_agrees s"
  "slot_agrees (s\<lparr>storage_writes := y1\<rparr>) = slot_agrees s"
  "slot_agrees (s\<lparr>error_log := y2\<rparr>) = slot_agrees s"
  "slot_agrees (s\<lparr>deliveries := y3\<rparr>) = slot_agrees s"
  "slot_agrees (s\<lparr>stream_log := y4\<rparr>) = slot_agrees s"
  "slot_agrees (s\<lparr>answers := y5\<rparr>) = slot_agrees s"
  by (simp_all add: slot_agrees_def in_flight_def)





















subsection \<open>Calls that join the refresh in the slot\<close>









subsection \<open>The turn of a notification of the producer\<close>









end
